theory Spec2Isabelle
  imports Complex_Main
begin

section \<open>Python values\<close>

text \<open>
  The application is the class \<open>FaceRecognitionApp\<close> of \<open>app.py\<close>. Its methods mutate the
  fields of \<open>self\<close>; here each method takes the fields as a record and returns the
  updated record on the right of a sum. A method that raises returns, on the left, the
  exception and the fields as they are when it is raised. The exceptions are those that
  \<open>except Exception\<close> catches.
\<close>

datatype py_exn = IndexError | AttributeError | Raised string

text \<open>
  A Python \<open>float\<close>: the finite doubles are rationals, and \<open>float('inf')\<close>, its negative
  and NaN are values of their own. Only comparisons are made on them.
\<close>

datatype pyfloat = Finite rat | PosInf | NegInf | NaN

fun float_lt :: "pyfloat \<Rightarrow> pyfloat \<Rightarrow> bool" where
  "float_lt NaN _ = False"
| "float_lt _ NaN = False"
| "float_lt (Finite a) (Finite b) = (a < b)"
| "float_lt (Finite a) PosInf = True"
| "float_lt (Finite a) NegInf = False"
| "float_lt PosInf _ = False"
| "float_lt NegInf NegInf = False"
| "float_lt NegInf _ = True"

definition float_ge :: "pyfloat \<Rightarrow> pyfloat \<Rightarrow> bool" where
  "float_ge a b = (a = b \<and> a \<noteq> NaN \<or> float_lt b a)"

text \<open>The truth value Python gives an \<open>Optional[str]\<close>: \<open>None\<close> and \<open>""\<close> are false.\<close>

definition truthy :: "string option \<Rightarrow> bool" where
  "truthy v = (case v of None \<Rightarrow> False | Some n \<Rightarrow> n \<noteq> [])"

text \<open>\<open>str.replace(a, b)\<close> for one-character \<open>a\<close> and \<open>b\<close>.\<close>

definition replace_char :: "char \<Rightarrow> char \<Rightarrow> string \<Rightarrow> string" where
  "replace_char a b s = map (\<lambda>c. if c = a then b else c) s"

subsection \<open>\<open>collections.Counter\<close>\<close>

text \<open>
  \<open>Counter(xs)\<close> is a dict, so its items are in the order in which the keys were first
  seen. \<open>most_common(1)\<close> is \<open>heapq.nlargest(1, items, key=count)\<close>, which for one
  element is \<open>max\<close>: the first item among those with the greatest count.
\<close>

fun counter_add :: "('a \<times> nat) list \<Rightarrow> 'a \<Rightarrow> ('a \<times> nat) list" where
  "counter_add [] x = [(x, 1)]"
| "counter_add ((k, c) # kcs) x =
     (if k = x then (k, c + 1) # kcs else (k, c) # counter_add kcs x)"

definition Counter :: "'a list \<Rightarrow> ('a \<times> nat) list" where
  "Counter xs = foldl counter_add [] xs"

fun max_by_count :: "('a \<times> nat) \<Rightarrow> ('a \<times> nat) list \<Rightarrow> ('a \<times> nat)" where
  "max_by_count best [] = best"
| "max_by_count best (kc # kcs) =
     (if snd best < snd kc then max_by_count kc kcs else max_by_count best kcs)"

definition most_common_1 :: "('a \<times> nat) list \<Rightarrow> ('a \<times> nat) list" where
  "most_common_1 items = (case items of [] \<Rightarrow> [] | kc # kcs \<Rightarrow> [max_by_count kc kcs])"

text \<open>\<open>xs[0]\<close>, which raises on the empty list.\<close>

definition index0 :: "'a list \<Rightarrow> py_exn + 'a" where
  "index0 xs = (case xs of [] \<Rightarrow> Inl IndexError | x # _ \<Rightarrow> Inr x)"

section \<open>The fields of the application\<close>

text \<open>
  A \<open>datetime\<close> is its number of microseconds, a \<open>time.monotonic()\<close> reading a rational
  number of seconds. A frame is the sequence number of its capture: nothing below depends
  on the pixels. A CSV file is absent or a list of lines.
\<close>

type_synonym datetime = int
type_synonym frame = nat
type_synonym rect = "int \<times> int \<times> int \<times> int"

datatype jval = JStr string | JOther

datatype cell = CStr string | CVal jval | CDate datetime | CTime datetime

datatype csv_line = Header "string list" | Row "cell list"

record annotated =
  an_frame :: frame
  an_face :: "rect option"
  an_name :: string
  an_distance :: pyfloat

record app_state =
  database_ready :: bool
  locked_in_person :: "string option"
  recognition_history :: "string list"
  stable_recognition_count :: int
  recently_logged :: "string \<rightharpoonup> datetime"
  last_recognition_result :: "string \<times> pyfloat"
  last_recognition_time :: rat
  recognition_future :: "frame option"
  submitted :: "frame list"
  processed_frame_queue :: "annotated list"
  student_attendance_file :: "csv_line list option"
  faculty_attendance_file :: "csv_line list option"

definition LOG_COOLDOWN_SECONDS :: int where "LOG_COOLDOWN_SECONDS = 300"
definition RECOGNITION_INTERVAL :: rat where "RECOGNITION_INTERVAL = 3 / 4"
definition FRAME_PROCESS_SCALE_FACTOR :: rat where "FRAME_PROCESS_SCALE_FACTOR = 1 / 2"
definition HISTORY_MAX_LENGTH :: nat where "HISTORY_MAX_LENGTH = 8"
definition CONFIDENCE_THRESHOLD_PERCENT :: rat where "CONFIDENCE_THRESHOLD_PERCENT = 3 / 4"
definition REQUIRED_STABLE_FRAMES :: int where "REQUIRED_STABLE_FRAMES = 4"
definition DEEPFACE_DISTANCE_THRESHOLD :: pyfloat where
  "DEEPFACE_DISTANCE_THRESHOLD = Finite (2 / 5)"

text \<open>The state variables as \<open>__init__\<close> sets them; both attendance files absent.\<close>

definition initial_state :: app_state where
  "initial_state = \<lparr>
     database_ready = False,
     locked_in_person = None,
     recognition_history = [],
     stable_recognition_count = 0,
     recently_logged = Map.empty,
     last_recognition_result = (''Searching...'', PosInf),
     last_recognition_time = 0,
     recognition_future = None,
     submitted = [],
     processed_frame_queue = [],
     student_attendance_file = None,
     faculty_attendance_file = None \<rparr>"

section \<open>The stabilization update\<close>

text \<open>
  \<open>update_recognition_state(name)\<close>. The division \<open>count / len(history)\<close> is a float
  division of two small integers compared with \<open>0.75\<close>, which is a double: the comparison
  of the rounded quotient agrees with the comparison of the exact one, so the proportion
  is a rational here. The calls that schedule the button's state on the Tk root touch no
  field and are left out.
\<close>

definition sentinels :: "string list" where
  "sentinels = [''Unknown'', ''Error'', ''Searching...'']"

text \<open>\<open>append(name)\<close>, then \<open>pop(0)\<close> when the list is longer than the capacity.\<close>

definition push_history :: "string list \<Rightarrow> string \<Rightarrow> string list" where
  "push_history h name =
     (let h1 = h @ [name] in if HISTORY_MAX_LENGTH < length h1 then tl h1 else h1)"

text \<open>The two branches on the most common name and its count.\<close>

definition apply_vote :: "app_state \<Rightarrow> string \<times> nat \<Rightarrow> app_state" where
  "apply_vote s mc =
     (let most_common_name = fst mc; count = snd mc;
          proportion = (of_nat count :: rat) / of_nat (length (recognition_history s))
      in if most_common_name \<notin> set sentinels \<and> CONFIDENCE_THRESHOLD_PERCENT \<le> proportion
         then
           (if stable_recognition_count s < REQUIRED_STABLE_FRAMES
            then s\<lparr>stable_recognition_count := stable_recognition_count s + 1\<rparr>
            else if locked_in_person s \<noteq> Some most_common_name
                 then s\<lparr>locked_in_person := Some most_common_name\<rparr>
                 else s)
         else
           (let s0 = s\<lparr>stable_recognition_count := 0\<rparr>
            in if truthy (locked_in_person s0)
               then s0\<lparr>locked_in_person := None, recognition_history := []\<rparr>
               else s0))"

definition update_recognition_state ::
    "app_state \<Rightarrow> string \<Rightarrow> py_exn \<times> app_state + app_state" where
  "update_recognition_state s name =
     (let s1 = s\<lparr>recognition_history := push_history (recognition_history s) name\<rparr>
      in if recognition_history s1 = [] then Inr s1
         else case index0 (most_common_1 (Counter (recognition_history s1))) of
                Inl e \<Rightarrow> Inl (e, s1)
              | Inr mc \<Rightarrow> Inr (apply_vote s1 mc))"

text \<open>Feeding labels one at a time, as successive frames do; an exception ends the run.\<close>

fun feed :: "app_state \<Rightarrow> string list \<Rightarrow> py_exn \<times> app_state + app_state" where
  "feed s [] = Inr s"
| "feed s (l # ls) =
     (case update_recognition_state s l of Inl e \<Rightarrow> Inl e | Inr s' \<Rightarrow> feed s' ls)"

text \<open>A field of the state a call returns; \<open>None\<close> when the call raised.\<close>

definition returned :: "(app_state \<Rightarrow> 'a) \<Rightarrow> py_exn \<times> app_state + app_state \<Rightarrow> 'a option" where
  "returned field r = (case r of Inl _ \<Rightarrow> None | Inr s \<Rightarrow> Some (field s))"

section \<open>The recognition job\<close>

text \<open>
  \<open>_run_deepface_recognition(frame)\<close> runs on the executor's thread. What
  \<open>DeepFace.find\<close> does is its outcome: an exception, or a value that is a list of data
  frames or not a list. A data frame is its rows, best match first. A row gives the
  identity path and the distance, or it is one on which reading a column, comparing the
  distance or taking the path apart raises. \<open>os.path.basename\<close> and \<open>os.path.dirname\<close>
  depend on the platform and are parameters.
\<close>

datatype df_row = Match string pyfloat | Malformed py_exn

datatype find_value = NotAList | DataFrames "df_row list list"

record os_path =
  basename :: "string \<Rightarrow> string"
  dirname :: "string \<Rightarrow> string"

text \<open>The body of the \<open>try\<close>: the result to store, or the exception raised in it.\<close>

definition recognition_try :: "os_path \<Rightarrow> py_exn + find_value \<Rightarrow> py_exn + string \<times> pyfloat" where
  "recognition_try os find_outcome =
     (case find_outcome of
        Inl e \<Rightarrow> Inl e
      | Inr NotAList \<Rightarrow> Inr (''Unknown'', PosInf)
      | Inr (DataFrames []) \<Rightarrow> Inr (''Unknown'', PosInf)
      | Inr (DataFrames (df # _)) \<Rightarrow>
          (case df of
             [] \<Rightarrow> Inr (''Unknown'', PosInf)
           | Malformed e # _ \<Rightarrow> Inl e
           | Match identity_path distance # _ \<Rightarrow>
               if float_lt distance DEEPFACE_DISTANCE_THRESHOLD
               then Inr (replace_char (CHR ''_'') (CHR '' '')
                           (basename os (dirname os identity_path)), distance)
               else Inr (''Unknown'', distance)))"

text \<open>The \<open>try\<close> with its \<open>except Exception\<close>: whatever was raised, a result is stored.\<close>

definition run_deepface_recognition ::
    "os_path \<Rightarrow> app_state \<Rightarrow> py_exn + find_value \<Rightarrow> py_exn \<times> app_state + app_state" where
  "run_deepface_recognition os s find_outcome =
     (case recognition_try os find_outcome of
        Inr r \<Rightarrow> Inr (s\<lparr>last_recognition_result := r\<rparr>)
      | Inl e \<Rightarrow> Inr (s\<lparr>last_recognition_result := (''Unknown'', PosInf)\<rparr>))"

section \<open>The frame-processing worker\<close>

text \<open>
  One pass of the loop of \<open>_frame_processing_worker\<close> takes from outside: the frame that
  \<open>raw_frame_queue.get\<close> returns (\<open>None\<close> when it times out), what
  \<open>detectMultiScale\<close> does, the reading of \<open>time.monotonic()\<close>, and what
  \<open>recognition_future.running()\<close> answers. The field \<open>submitted\<close> records the calls of
  \<open>recognition_executor.submit\<close>. The image transformations touch no field;
  \<open>draw_on_frame\<close> keeps what it was given.
\<close>

record iter_env =
  raw_frame :: "frame option"
  detect_result :: "py_exn + rect list"
  current_time :: rat
  future_running :: bool

fun max_by_area :: "rect \<Rightarrow> rect list \<Rightarrow> rect" where
  "max_by_area best [] = best"
| "max_by_area (x0, y0, w0, h0) ((x, y, w, h) # rs) =
     (if w0 * h0 < w * h then max_by_area (x, y, w, h) rs
      else max_by_area (x0, y0, w0, h0) rs)"

text \<open>\<open>int(c / FRAME_PROCESS_SCALE_FACTOR)\<close>: \<open>int\<close> truncates towards zero.\<close>

definition py_int :: "rat \<Rightarrow> int" where
  "py_int q = (if 0 \<le> q then \<lfloor>q\<rfloor> else \<lceil>q\<rceil>)"

definition unscale :: "int \<Rightarrow> int" where
  "unscale c = py_int (of_int c / FRAME_PROCESS_SCALE_FACTOR)"

definition face_coords_of :: "rect list \<Rightarrow> rect option" where
  "face_coords_of faces =
     (case faces of
        [] \<Rightarrow> None
      | r # rs \<Rightarrow> (case max_by_area r rs of
                     (x, y, w, h) \<Rightarrow> Some (unscale x, unscale y, unscale w, unscale h)))"

definition draw_on_frame :: "frame \<Rightarrow> rect option \<Rightarrow> string \<Rightarrow> pyfloat \<Rightarrow> annotated" where
  "draw_on_frame fr face_coords name distance =
     \<lparr>an_frame = fr, an_face = face_coords, an_name = name, an_distance = distance\<rparr>"

definition QUEUE_MAXSIZE :: nat where "QUEUE_MAXSIZE = 2"

definition is_recognition_running :: "app_state \<Rightarrow> iter_env \<Rightarrow> bool" where
  "is_recognition_running s env = (recognition_future s \<noteq> None \<and> future_running env)"

definition worker_iteration ::
    "app_state \<Rightarrow> iter_env \<Rightarrow> py_exn \<times> app_state + app_state" where
  "worker_iteration s env =
     (case raw_frame env of
        None \<Rightarrow> Inr s
      | Some fr \<Rightarrow>
          (case detect_result env of
             Inl e \<Rightarrow> Inl (e, s)
           | Inr faces \<Rightarrow>
               (let face_coords = face_coords_of faces;
                    s1 = (if database_ready s \<and> face_coords \<noteq> None
                             \<and> \<not> is_recognition_running s env
                             \<and> RECOGNITION_INTERVAL < current_time env - last_recognition_time s
                          then s\<lparr>last_recognition_time := current_time env,
                                 recognition_future := Some fr,
                                 submitted := submitted s @ [fr]\<rparr>
                          else s)
                in case update_recognition_state s1 (fst (last_recognition_result s1)) of
                     Inl e \<Rightarrow> Inl e
                   | Inr s2 \<Rightarrow>
                       (let annotated_frame =
                              draw_on_frame fr face_coords (fst (last_recognition_result s2))
                                (snd (last_recognition_result s2))
                        in if length (processed_frame_queue s2) < QUEUE_MAXSIZE
                           then Inr (s2\<lparr>processed_frame_queue :=
                                          processed_frame_queue s2 @ [annotated_frame]\<rparr>)
                           else Inr s2))))"

text \<open>
  The loop runs while \<open>app_running\<close> is set: the list holds, for each pass made
  before the flag is cleared, what that pass takes from outside. An exception raised in a
  pass leaves the loop.
\<close>

fun frame_processing_worker ::
    "app_state \<Rightarrow> iter_env list \<Rightarrow> py_exn \<times> app_state + app_state" where
  "frame_processing_worker s [] = Inr s"
| "frame_processing_worker s (env # envs) =
     (case worker_iteration s env of
        Inl e \<Rightarrow> Inl e
      | Inr s' \<Rightarrow> frame_processing_worker s' envs)"

section \<open>Marking attendance\<close>

text \<open>
  \<open>mark_attendance(name)\<close> takes from outside: \<open>datetime.now()\<close>, what is found at
  \<open>details.json\<close> in the folder of the name, and whether building and appending the CSV
  entry raises. The messages for the log box and the button's state are widgets of the
  Tk window and are left out.
\<close>

datatype json_doc = JNotDict | JDict "(string \<times> jval) list"

datatype details_source = NoFile | Unreadable | Loaded json_doc

record mark_env =
  now :: datetime
  details_at :: "string \<Rightarrow> details_source"
  to_csv_raises :: bool

definition dict_get :: "(string \<times> jval) list \<Rightarrow> string \<Rightarrow> jval \<Rightarrow> jval" where
  "dict_get d k dflt = (case map_of d k of None \<Rightarrow> dflt | Some v \<Rightarrow> v)"

definition timedelta_seconds :: "int \<Rightarrow> int" where
  "timedelta_seconds n = n * 1000000"

definition columns :: "string list" where
  "columns = [''Name'', ''Department'', ''Date'', ''Time'']"

text \<open>
  \<open>to_csv(mode='a', header=...)\<close>: the header is written when the file is absent or
  empty.
\<close>

definition to_csv_append :: "csv_line list option \<Rightarrow> cell list \<Rightarrow> csv_line list option" where
  "to_csv_append file entry =
     (case file of
        None \<Rightarrow> Some [Header columns, Row entry]
      | Some ls \<Rightarrow> if ls = [] then Some [Header columns, Row entry] else Some (ls @ [Row entry]))"

datatype target = StudentFile | FacultyFile

definition write_entry :: "app_state \<Rightarrow> mark_env \<Rightarrow> target \<Rightarrow> string \<Rightarrow> jval \<Rightarrow> app_state" where
  "write_entry s env target_file name department =
     (if to_csv_raises env then s
      else
        (let entry = [CStr name, CVal department, CDate (now env), CTime (now env)];
             s1 = (case target_file of
                     StudentFile \<Rightarrow>
                       s\<lparr>student_attendance_file := to_csv_append (student_attendance_file s) entry\<rparr>
                   | FacultyFile \<Rightarrow>
                       s\<lparr>faculty_attendance_file := to_csv_append (faculty_attendance_file s) entry\<rparr>)
         in s1\<lparr>recently_logged :=
                  (recently_logged s1)(name \<mapsto> now env + timedelta_seconds LOG_COOLDOWN_SECONDS),
                locked_in_person := None,
                recognition_history := []\<rparr>))"

definition on_cooldown :: "app_state \<Rightarrow> string \<Rightarrow> datetime \<Rightarrow> bool" where
  "on_cooldown s name t = (case recently_logged s name of None \<Rightarrow> False | Some until \<Rightarrow> t < until)"

definition mark_attendance ::
    "app_state \<Rightarrow> mark_env \<Rightarrow> string \<Rightarrow> py_exn \<times> app_state + app_state" where
  "mark_attendance s env name =
     (if on_cooldown s name (now env) then Inr s
      else
        (let folder_name = replace_char (CHR '' '') (CHR ''_'') name
         in case details_at env folder_name of
              NoFile \<Rightarrow> Inr s
            | Unreadable \<Rightarrow> Inr s
            | Loaded JNotDict \<Rightarrow> Inl (AttributeError, s)
            | Loaded (JDict details) \<Rightarrow>
                (let user_type = dict_get details ''user_type'' (JStr ''Unknown'');
                     department = dict_get details ''department'' (JStr ''N/A'')
                 in if user_type = JStr ''Student''
                    then Inr (write_entry s env StudentFile name department)
                    else if user_type = JStr ''Faculty''
                    then Inr (write_entry s env FacultyFile name department)
                    else Inr s)))"

text \<open>The number of entries in the two attendance files.\<close>

definition is_row :: "csv_line \<Rightarrow> bool" where
  "is_row l = (case l of Row _ \<Rightarrow> True | Header _ \<Rightarrow> False)"

definition rows_of :: "csv_line list option \<Rightarrow> csv_line list" where
  "rows_of file = (case file of None \<Rightarrow> [] | Some ls \<Rightarrow> filter is_row ls)"

definition log_entries :: "app_state \<Rightarrow> nat" where
  "log_entries s = length (rows_of (student_attendance_file s)) + length (rows_of (faculty_attendance_file s))"

section \<open>Notions used in the proofs\<close>

text \<open>The count stored for a key in the items of a counter, zero for a missing key.\<close>

definition count_of :: "('a \<times> nat) list \<Rightarrow> 'a \<Rightarrow> nat" where
  "count_of kcs x = (case map_of kcs x of None \<Rightarrow> 0 | Some c \<Rightarrow> c)"

text \<open>
  What every state met while frames are processed satisfies: the history holds at most
  \<open>HISTORY_MAX_LENGTH\<close> labels and the counter lies between 0 and
  \<open>REQUIRED_STABLE_FRAMES\<close>.
\<close>

definition stab_inv :: "app_state \<Rightarrow> bool" where
  "stab_inv s = (length (recognition_history s) \<le> HISTORY_MAX_LENGTH
      \<and> 0 \<le> stable_recognition_count s
      \<and> stable_recognition_count s \<le> REQUIRED_STABLE_FRAMES)"

text \<open>The last \<open>k\<close> labels of a history, or all of them if there are fewer, are \<open>M\<close>.\<close>

definition tail_all :: "nat \<Rightarrow> string \<Rightarrow> string list \<Rightarrow> bool" where
  "tail_all k M h = (set (drop (length h - k) h) \<subseteq> {M})"

text \<open>
  How far the state has come after the label \<open>M\<close> was fed \<open>i\<close> times in a row: the first
  five calls fill the tail of the history with \<open>M\<close>, the next four bring the counter to
  \<open>REQUIRED_STABLE_FRAMES\<close>, the tenth locks \<open>M\<close>.
\<close>

definition lock_progress :: "string \<Rightarrow> nat \<Rightarrow> app_state \<Rightarrow> bool" where
  "lock_progress M i s =
     (length (recognition_history s) \<le> HISTORY_MAX_LENGTH
      \<and> tail_all (min i 5) M (recognition_history s)
      \<and> 0 \<le> stable_recognition_count s
      \<and> min (int i - 5) REQUIRED_STABLE_FRAMES \<le> stable_recognition_count s
      \<and> (10 \<le> i \<longrightarrow> locked_in_person s = Some M))"

text \<open>
  The state after the labels \<open>A, A, A, A, A, Unknown\<close> were fed from the initial state:
  \<open>A\<close> is locked.
\<close>

definition locked_A_state :: app_state where
  "locked_A_state = initial_state\<lparr>locked_in_person := Some ''A'',
      recognition_history := [''A'', ''A'', ''A'', ''A'', ''A'', ''Unknown''],
      stable_recognition_count := 4\<rparr>"

text \<open>
  The states the application can be in: the initial one, and the one any method of the
  model returns from such a state. Setting \<open>database_ready\<close> is the database check; taking
  the head of \<open>processed_frame_queue\<close> is the display loop.
\<close>

inductive reachable :: "app_state \<Rightarrow> bool" where
  reachable_initial: "reachable initial_state"
| reachable_update:
    "reachable s \<Longrightarrow> update_recognition_state s name = Inr s' \<Longrightarrow> reachable s'"
| reachable_frame:
    "reachable s \<Longrightarrow> worker_iteration s env = Inr s' \<Longrightarrow> reachable s'"
| reachable_recognition:
    "reachable s \<Longrightarrow> run_deepface_recognition os s outcome = Inr s' \<Longrightarrow> reachable s'"
| reachable_mark:
    "reachable s \<Longrightarrow> mark_attendance s menv name = Inr s' \<Longrightarrow> reachable s'"
| reachable_database:
    "reachable s \<Longrightarrow> reachable (s\<lparr>database_ready := b\<rparr>)"
| reachable_display:
    "reachable s \<Longrightarrow> reachable (s\<lparr>processed_frame_queue := tl (processed_frame_queue s)\<rparr>)"

subsection \<open>Concrete inputs\<close>

text \<open>\<open>posixpath.basename\<close> and \<open>posixpath.dirname\<close>, the path functions on one platform.\<close>

definition posix_basename :: "string \<Rightarrow> string" where
  "posix_basename p = rev (takeWhile (\<lambda>c. c \<noteq> CHR ''/'') (rev p))"

definition posix_dirname :: "string \<Rightarrow> string" where
  "posix_dirname p =
     (let head = rev (dropWhile (\<lambda>c. c \<noteq> CHR ''/'') (rev p))
      in if head \<noteq> [] \<and> \<not> list_all (\<lambda>c. c = CHR ''/'') head
         then rev (dropWhile (\<lambda>c. c = CHR ''/'') (rev head)) else head)"

definition posixpath :: os_path where
  "posixpath = \<lparr>basename = posix_basename, dirname = posix_dirname\<rparr>"

text \<open>A pass that finds two faces at time 12, and one in which the detector raises.\<close>

definition face_env :: iter_env where
  "face_env = \<lparr>raw_frame = Some 7, detect_result = Inr [(100, 80, 60, 60), (10, 10, 50, 52)],
     current_time = 12, future_running = False\<rparr>"

definition detector_fails_env :: iter_env where
  "detector_fails_env = \<lparr>raw_frame = Some 6, detect_result = Inl (Raised ''cv2.error''),
     current_time = 11, future_running = False\<rparr>"

definition ready_state :: app_state where
  "ready_state = initial_state\<lparr>database_ready := True\<rparr>"

text \<open>What the pass \<open>face_env\<close> makes of \<open>ready_state\<close>: a job is submitted.\<close>

definition after_dispatch_state :: app_state where
  "after_dispatch_state = ready_state\<lparr>
      last_recognition_time := 12,
      recognition_future := Some 7,
      submitted := [7],
      recognition_history := [''Searching...''],
      processed_frame_queue :=
        [\<lparr>an_frame = 7, an_face = Some (200, 160, 120, 120),
          an_name = ''Searching...'', an_distance = PosInf\<rparr>]\<rparr>"

text \<open>
  A student, Bob Ray, with his record in the folder \<open>Bob_Ray\<close>; three calls of
  \<open>mark_attendance\<close>: one at time \<open>1000 s\<close>, one a microsecond before the cooldown of the
  first expires, one in which the CSV append raises.
\<close>

definition bob_details :: "string \<Rightarrow> details_source" where
  "bob_details folder =
     (if folder = ''Bob_Ray''
      then Loaded (JDict [(''name'', JStr ''Bob Ray''), (''user_type'', JStr ''Student''),
                          (''department'', JStr ''BSCS'')])
      else NoFile)"

definition bob_env :: mark_env where
  "bob_env = \<lparr>now = 1000000000, details_at = bob_details, to_csv_raises = False\<rparr>"

definition bob_env_soon :: mark_env where
  "bob_env_soon = \<lparr>now = 1299999999, details_at = bob_details, to_csv_raises = False\<rparr>"

definition bob_env_disk_full :: mark_env where
  "bob_env_disk_full = \<lparr>now = 1000000000, details_at = bob_details, to_csv_raises = True\<rparr>"

definition locked_bob_state :: app_state where
  "locked_bob_state = initial_state\<lparr>locked_in_person := Some ''Bob Ray'',
      recognition_history := [''Bob Ray'', ''Bob Ray'', ''Bob Ray'', ''Bob Ray'', ''Bob Ray''],
      stable_recognition_count := 4\<rparr>"

definition bob_logged_state :: app_state where
  "bob_logged_state = locked_bob_state\<lparr>
      student_attendance_file :=
        Some [Header columns,
              Row [CStr ''Bob Ray'', CVal (JStr ''BSCS''), CDate 1000000000, CTime 1000000000]],
      recently_logged := (recently_logged locked_bob_state)(''Bob Ray'' \<mapsto> 1300000000),
      locked_in_person := None,
      recognition_history := []\<rparr>"

section \<open>The counter of labels\<close>

lemma counter_add_keys: "fst ` set (counter_add kcs x) = insert x (fst ` set kcs)"
  by (induction kcs x rule: counter_add.induct) auto

lemma counter_add_distinct:
  "distinct (map fst kcs) \<Longrightarrow> distinct (map fst (counter_add kcs x))"
proof (induction kcs x rule: counter_add.induct)
  case (1 x)
  then show ?case by simp
next
  case (2 k c kcs x)
  then show ?case using counter_add_keys [of kcs x] by auto
qed

lemma counter_add_count:
  "count_of (counter_add kcs x) y = count_of kcs y + (if x = y then 1 else 0)"
  by (induction kcs x rule: counter_add.induct) (auto simp: count_of_def)

lemma foldl_counter_add_keys:
  "fst ` set (foldl counter_add acc xs) = fst ` set acc \<union> set xs"
  by (induction xs arbitrary: acc) (auto simp: counter_add_keys)

lemma foldl_counter_add_distinct:
  "distinct (map fst acc) \<Longrightarrow> distinct (map fst (foldl counter_add acc xs))"
  by (induction xs arbitrary: acc) (auto simp: counter_add_distinct)

lemma foldl_counter_add_count:
  "count_of (foldl counter_add acc xs) y = count_of acc y + count_list xs y"
  by (induction xs arbitrary: acc) (auto simp: counter_add_count)

lemma Counter_keys: "fst ` set (Counter xs) = set xs"
  by (simp add: Counter_def foldl_counter_add_keys)

lemma Counter_distinct: "distinct (map fst (Counter xs))"
  by (simp add: Counter_def foldl_counter_add_distinct)

lemma Counter_count: "count_of (Counter xs) y = count_list xs y"
  by (simp add: Counter_def foldl_counter_add_count) (simp add: count_of_def)

lemma Counter_item: "(k, c) \<in> set (Counter xs) \<Longrightarrow> k \<in> set xs \<and> c = count_list xs k"
proof -
  assume m: "(k, c) \<in> set (Counter xs)"
  then have "map_of (Counter xs) k = Some c"
    using Counter_distinct [of xs] by simp
  then have "count_of (Counter xs) k = c" by (simp add: count_of_def)
  moreover have "k \<in> set xs" using m Counter_keys [of xs] by force
  ultimately show ?thesis by (simp add: Counter_count)
qed

lemma Counter_has: "x \<in> set xs \<Longrightarrow> (x, count_list xs x) \<in> set (Counter xs)"
proof -
  assume "x \<in> set xs"
  then have "x \<in> fst ` set (Counter xs)" by (simp add: Counter_keys)
  then obtain c where m: "(x, c) \<in> set (Counter xs)" by force
  then show ?thesis using Counter_item [OF m] by simp
qed

lemma max_by_count_mem: "max_by_count best kcs \<in> set (best # kcs)"
  by (induction kcs arbitrary: best) auto

lemma max_by_count_all:
  "snd best \<le> snd (max_by_count best kcs) \<and> (\<forall>kc \<in> set kcs. snd kc \<le> snd (max_by_count best kcs))"
proof (induction kcs arbitrary: best)
  case Nil
  then show ?case by simp
next
  case (Cons a kcs)
  show ?case
  proof (cases "snd best < snd a")
    case True
    then show ?thesis using Cons.IH [of a] by auto
  next
    case False
    then show ?thesis using Cons.IH [of best] by auto
  qed
qed

lemma max_by_count_ge: "kc \<in> set (best # kcs) \<Longrightarrow> snd kc \<le> snd (max_by_count best kcs)"
  using max_by_count_all [of best kcs] by auto

lemma most_common_spec:
  assumes "h \<noteq> []"
  shows "\<exists>m. index0 (most_common_1 (Counter h)) = Inr (m, count_list h m)
            \<and> m \<in> set h \<and> (\<forall>x. count_list h x \<le> count_list h m)"
proof -
  have "set (Counter h) \<noteq> {}" using assms Counter_keys [of h] by auto
  then obtain kc kcs where C: "Counter h = kc # kcs" by (cases "Counter h") auto
  define b where "b = max_by_count kc kcs"
  have bm: "b \<in> set (Counter h)" using max_by_count_mem [of kc kcs] by (simp add: b_def C)
  obtain m c where b: "b = (m, c)" by (cases b)
  have mc: "m \<in> set h \<and> c = count_list h m" using Counter_item bm b by metis
  have ge: "count_list h x \<le> c" for x
  proof (cases "x \<in> set h")
    case True
    then have "(x, count_list h x) \<in> set (kc # kcs)" using Counter_has C by metis
    from max_by_count_ge [OF this] show ?thesis by (simp add: b_def [symmetric] b)
  next
    case False
    then show ?thesis by (simp add: count_list_0_iff)
  qed
  have "index0 (most_common_1 (Counter h)) = Inr (m, c)"
    by (simp add: index0_def most_common_1_def C b_def [symmetric] b)
  then show ?thesis using mc ge by auto
qed

section \<open>One stabilization update\<close>

lemma push_history_not_Nil: "push_history h name \<noteq> []"
  by (cases h) (auto simp: push_history_def Let_def HISTORY_MAX_LENGTH_def)

lemma length_push_history:
  "length h \<le> HISTORY_MAX_LENGTH \<Longrightarrow> length (push_history h name) \<le> HISTORY_MAX_LENGTH"
  by (auto simp: push_history_def Let_def)

lemma update_recognition_state_vote:
  "\<exists>m. m \<in> set (push_history (recognition_history s) name)
     \<and> (\<forall>x. count_list (push_history (recognition_history s) name) x
              \<le> count_list (push_history (recognition_history s) name) m)
     \<and> update_recognition_state s name =
         Inr (apply_vote (s\<lparr>recognition_history := push_history (recognition_history s) name\<rparr>)
                (m, count_list (push_history (recognition_history s) name) m))"
proof -
  define h where "h = push_history (recognition_history s) name"
  have ne: "h \<noteq> []" by (simp add: h_def push_history_not_Nil)
  from most_common_spec [OF ne] obtain m where
    m: "index0 (most_common_1 (Counter h)) = Inr (m, count_list h m)"
       "m \<in> set h" "\<forall>x. count_list h x \<le> count_list h m" by blast
  have "update_recognition_state s name = Inr (apply_vote (s\<lparr>recognition_history := h\<rparr>) (m, count_list h m))"
    using ne m(1) by (simp add: update_recognition_state_def Let_def h_def [symmetric])
  then show ?thesis using m(2,3) unfolding h_def by blast
qed

lemma apply_vote_count:
  "stable_recognition_count (apply_vote s mc) = stable_recognition_count s + 1
      \<and> stable_recognition_count s < REQUIRED_STABLE_FRAMES
   \<or> stable_recognition_count (apply_vote s mc) = stable_recognition_count s
   \<or> stable_recognition_count (apply_vote s mc) = 0"
  by (simp add: apply_vote_def Let_def)

lemma apply_vote_bounds:
  "0 \<le> stable_recognition_count s \<Longrightarrow> stable_recognition_count s \<le> REQUIRED_STABLE_FRAMES
   \<Longrightarrow> 0 \<le> stable_recognition_count (apply_vote s mc)
     \<and> stable_recognition_count (apply_vote s mc) \<le> REQUIRED_STABLE_FRAMES"
  by (simp add: apply_vote_def Let_def REQUIRED_STABLE_FRAMES_def)

lemma apply_vote_history:
  "recognition_history (apply_vote s mc) = recognition_history s
   \<or> recognition_history (apply_vote s mc) = []"
  by (simp add: apply_vote_def Let_def)

lemma update_recognition_state_inv:
  assumes "stab_inv s"
  shows "\<exists>s'. update_recognition_state s name = Inr s' \<and> stab_inv s'"
proof -
  let ?s1 = "s\<lparr>recognition_history := push_history (recognition_history s) name\<rparr>"
  obtain m where
    u: "update_recognition_state s name =
          Inr (apply_vote ?s1 (m, count_list (push_history (recognition_history s) name) m))"
    using update_recognition_state_vote [of s name] by blast
  let ?s' = "apply_vote ?s1 (m, count_list (push_history (recognition_history s) name) m)"
  have len: "length (recognition_history ?s1) \<le> HISTORY_MAX_LENGTH"
    using assms by (simp add: stab_inv_def length_push_history)
  have "length (recognition_history ?s') \<le> HISTORY_MAX_LENGTH"
    using apply_vote_history [of ?s1 "(m, count_list (push_history (recognition_history s) name) m)"] len
    by auto
  moreover have "0 \<le> stable_recognition_count ?s' \<and> stable_recognition_count ?s' \<le> REQUIRED_STABLE_FRAMES"
    using assms by (intro apply_vote_bounds) (simp_all add: stab_inv_def)
  ultimately show ?thesis using u by (simp add: stab_inv_def)
qed

lemma feed_inv: "stab_inv s \<Longrightarrow> \<exists>s'. feed s ls = Inr s' \<and> stab_inv s'"
proof (induction ls arbitrary: s)
  case Nil
  then show ?case by simp
next
  case (Cons l ls)
  from update_recognition_state_inv [OF Cons.prems] obtain s1 where
    s1: "update_recognition_state s l = Inr s1" "stab_inv s1" by blast
  from Cons.IH [OF s1(2)] show ?case using s1(1) by simp
qed

lemma stab_inv_initial: "stab_inv initial_state"
  by (simp add: stab_inv_def initial_state_def HISTORY_MAX_LENGTH_def REQUIRED_STABLE_FRAMES_def)

lemma update_recognition_state_keeps:
  "\<exists>s'. update_recognition_state s name = Inr s'
     \<and> (length (recognition_history s) \<le> HISTORY_MAX_LENGTH
          \<longrightarrow> length (recognition_history s') \<le> HISTORY_MAX_LENGTH)
     \<and> (0 \<le> stable_recognition_count s \<longrightarrow> 0 \<le> stable_recognition_count s')"
proof -
  define h2 where "h2 = push_history (recognition_history s) name"
  define s1 where "s1 = s\<lparr>recognition_history := h2\<rparr>"
  obtain m where
    u: "update_recognition_state s name = Inr (apply_vote s1 (m, count_list h2 m))"
    using update_recognition_state_vote [of s name] unfolding h2_def s1_def by blast
  have "length (recognition_history (apply_vote s1 (m, count_list h2 m))) \<le> HISTORY_MAX_LENGTH"
    if "length (recognition_history s) \<le> HISTORY_MAX_LENGTH"
    using apply_vote_history [of s1 "(m, count_list h2 m)"] length_push_history [OF that, of name]
    by (auto simp: s1_def h2_def)
  moreover have "0 \<le> stable_recognition_count (apply_vote s1 (m, count_list h2 m))"
    if "0 \<le> stable_recognition_count s"
    using apply_vote_count [of s1 "(m, count_list h2 m)"] that by (auto simp: s1_def)
  ultimately show ?thesis using u by simp
qed

lemma feed_keeps:
  "length (recognition_history s) \<le> HISTORY_MAX_LENGTH \<Longrightarrow> 0 \<le> stable_recognition_count s
   \<Longrightarrow> \<exists>s'. feed s ls = Inr s'
         \<and> length (recognition_history s') \<le> HISTORY_MAX_LENGTH
         \<and> 0 \<le> stable_recognition_count s'"
proof (induction ls arbitrary: s)
  case Nil
  then show ?case by simp
next
  case (Cons l ls)
  from update_recognition_state_keeps [of s l] Cons.prems obtain s1 where
    s1: "update_recognition_state s l = Inr s1"
        "length (recognition_history s1) \<le> HISTORY_MAX_LENGTH"
        "0 \<le> stable_recognition_count s1" by blast
  from Cons.IH [OF s1(2,3)] show ?case using s1(1) by simp
qed

section \<open>A run of equal labels\<close>

lemma tail_all_Nil: "tail_all k M []"
  by (simp add: tail_all_def)

lemma tail_all_0: "tail_all 0 M h"
  by (simp add: tail_all_def)

lemma tail_all_mono: "tail_all (Suc k) M h \<Longrightarrow> tail_all k M h"
proof -
  assume t: "tail_all (Suc k) M h"
  have "length h - Suc k \<le> length h - k" by simp
  from set_drop_subset_set_drop [OF this, of h] t show ?thesis
    unfolding tail_all_def by blast
qed

lemma tail_all_push:
  "tail_all k M h \<Longrightarrow> tail_all (Suc k) M (push_history h M)"
proof -
  assume t: "tail_all k M h"
  show ?thesis
  proof (cases "HISTORY_MAX_LENGTH < length (h @ [M])")
    case False
    then have p: "push_history h M = h @ [M]" by (simp add: push_history_def Let_def)
    show ?thesis using t by (simp add: p tail_all_def)
  next
    case True
    then have ne: "h \<noteq> []" by (auto simp: HISTORY_MAX_LENGTH_def)
    from True have p: "push_history h M = tl h @ [M]"
      using ne by (simp add: push_history_def Let_def)
    have "set (drop (length h - Suc k) (tl h)) \<subseteq> set (drop (length h - k) h)"
    proof (cases "k < length h")
      case True
      then have "length h - k = Suc (length h - Suc k)" by simp
      then show ?thesis by (simp add: drop_Suc)
    next
      case False
      then have "drop (length h - k) h = h" by simp
      moreover have "set (tl h) \<subseteq> set h" using ne by (cases h) auto
      moreover have "set (drop (length h - Suc k) (tl h)) \<subseteq> set (tl h)" by (rule set_drop_subset)
      ultimately show ?thesis by simp
    qed
    then show ?thesis using t ne by (auto simp: p tail_all_def)
  qed
qed

lemma count_list_all: "set xs \<subseteq> {M} \<Longrightarrow> count_list xs M = length xs"
  by (induction xs) auto

lemma tail_all_count: "tail_all k M h \<Longrightarrow> min k (length h) \<le> count_list h M"
proof -
  assume t: "tail_all k M h"
  have "count_list h M = count_list (take (length h - k) h) M + count_list (drop (length h - k) h) M"
    by (metis append_take_drop_id count_list_append)
  also have "count_list (drop (length h - k) h) M = length (drop (length h - k) h)"
    using t by (simp add: tail_all_def count_list_all)
  finally show ?thesis by simp
qed

lemma count_list_two: "m \<noteq> M \<Longrightarrow> count_list h m + count_list h M \<le> length h"
  by (induction h) auto

lemma majority_unique:
  assumes "\<forall>x. count_list h x \<le> count_list h m" and "length h < 2 * count_list h M"
  shows "m = M"
proof (rule ccontr)
  assume "m \<noteq> M"
  from count_list_two [OF this, of h] assms(1) [rule_format, of M] assms(2)
  show False by simp
qed

lemma apply_vote_confident:
  assumes "M \<notin> set sentinels" and "recognition_history s \<noteq> []"
      and "3 * length (recognition_history s) \<le> 4 * c"
  shows "apply_vote s (M, c) =
           (if stable_recognition_count s < REQUIRED_STABLE_FRAMES
            then s\<lparr>stable_recognition_count := stable_recognition_count s + 1\<rparr>
            else if locked_in_person s \<noteq> Some M then s\<lparr>locked_in_person := Some M\<rparr> else s)"
proof -
  have pos: "(0::rat) < of_nat (length (recognition_history s))" using assms(2) by simp
  have "(3::rat) * of_nat (length (recognition_history s)) \<le> 4 * of_nat c"
    using assms(3) by (metis of_nat_mult of_nat_numeral of_nat_le_iff)
  then have "CONFIDENCE_THRESHOLD_PERCENT \<le> (of_nat c :: rat) / of_nat (length (recognition_history s))"
    using pos by (simp add: CONFIDENCE_THRESHOLD_PERCENT_def field_simps)
  then show ?thesis using assms(1) by (simp add: apply_vote_def Let_def)
qed

lemma lock_progress_step:
  assumes M: "M \<notin> set sentinels" and R: "lock_progress M i s"
  shows "\<exists>s'. update_recognition_state s M = Inr s' \<and> lock_progress M (Suc i) s'"
proof -
  define h2 where "h2 = push_history (recognition_history s) M"
  define s1 where "s1 = s\<lparr>recognition_history := h2\<rparr>"
  obtain m where
    mx: "\<forall>x. count_list h2 x \<le> count_list h2 m" and
    u: "update_recognition_state s M = Inr (apply_vote s1 (m, count_list h2 m))"
    using update_recognition_state_vote [of s M] unfolding h2_def s1_def by blast
  define s' where "s' = apply_vote s1 (m, count_list h2 m)"
  have len: "length h2 \<le> HISTORY_MAX_LENGTH"
    using R by (simp add: lock_progress_def h2_def length_push_history)
  have ne: "h2 \<noteq> []" by (simp add: h2_def push_history_not_Nil)
  have tl: "tail_all (Suc (min i 5)) M h2"
    using R by (simp add: lock_progress_def h2_def tail_all_push)
  have c0: "0 \<le> stable_recognition_count s1" and
    ci: "min (int i - 5) REQUIRED_STABLE_FRAMES \<le> stable_recognition_count s1"
    using R by (simp_all add: lock_progress_def s1_def)
  have h1: "recognition_history s1 = h2" by (simp add: s1_def)
  have "lock_progress M (Suc i) s'"
  proof (cases "i < 5")
    case True
    have hs: "recognition_history s' = h2 \<or> recognition_history s' = []"
      using apply_vote_history [of s1 "(m, count_list h2 m)"] by (simp add: s'_def h1)
    have a: "length (recognition_history s') \<le> HISTORY_MAX_LENGTH" using hs len by auto
    have b: "tail_all (min (Suc i) 5) M (recognition_history s')"
      using hs tl True by (auto simp: tail_all_Nil min_def)
    have c: "0 \<le> stable_recognition_count s'"
      using apply_vote_count [of s1 "(m, count_list h2 m)"] c0 by (auto simp: s'_def)
    show ?thesis using a b c True by (simp add: lock_progress_def REQUIRED_STABLE_FRAMES_def)
  next
    case False
    then have "min i 5 = 5" by simp
    then have "tail_all (Suc 5) M h2" using tl by simp
    then have t6: "tail_all 6 M h2" by simp
    have cnt: "min 6 (length h2) \<le> count_list h2 M" using tail_all_count [OF t6] .
    have l8: "length h2 \<le> 8" using len by (simp add: HISTORY_MAX_LENGTH_def)
    have lpos: "0 < length h2" using ne by simp
    have q: "3 * length h2 \<le> 4 * count_list h2 M" using cnt l8 by linarith
    have maj: "length h2 < 2 * count_list h2 M" using cnt l8 lpos by linarith
    have mM: "m = M" using majority_unique [OF mx maj] .
    have s'_eq: "s' = (if stable_recognition_count s1 < REQUIRED_STABLE_FRAMES
            then s1\<lparr>stable_recognition_count := stable_recognition_count s1 + 1\<rparr>
            else if locked_in_person s1 \<noteq> Some M then s1\<lparr>locked_in_person := Some M\<rparr> else s1)"
      unfolding s'_def mM using apply_vote_confident [OF M, of s1 "count_list h2 M"] ne q
      by (simp add: h1)
    have t5: "tail_all 5 M h2" using tail_all_mono [of 5 M h2] \<open>tail_all (Suc 5) M h2\<close> by simp
    have lk: "locked_in_person s1 = Some M" if "10 \<le> i"
      using R that by (simp add: lock_progress_def s1_def)
    show ?thesis
    proof (cases "stable_recognition_count s1 < REQUIRED_STABLE_FRAMES")
      case True
      then have i9: "i < 9" using ci by (auto simp: REQUIRED_STABLE_FRAMES_def min_def split: if_splits)
      show ?thesis using True s'_eq len t5 c0 ci False i9
        by (auto simp: lock_progress_def h1 REQUIRED_STABLE_FRAMES_def min_def)
    next
      case F: False
      show ?thesis using F s'_eq len t5 c0 ci False
        by (auto simp: lock_progress_def h1 REQUIRED_STABLE_FRAMES_def min_def)
    qed
  qed
  then show ?thesis using u by (simp add: s'_def)
qed

lemma lock_progress_feed:
  assumes "M \<notin> set sentinels"
  shows "lock_progress M i s \<Longrightarrow> \<exists>s'. feed s (replicate n M) = Inr s' \<and> lock_progress M (i + n) s'"
proof (induction n arbitrary: i s)
  case 0
  then show ?case by simp
next
  case (Suc n)
  from lock_progress_step [OF assms Suc.prems] obtain s1 where
    s1: "update_recognition_state s M = Inr s1" "lock_progress M (Suc i) s1" by blast
  from Suc.IH [OF s1(2)] show ?case using s1(1) by simp
qed

lemma feed_append:
  "feed s (xs @ ys) = (case feed s xs of Inl e \<Rightarrow> Inl e | Inr s' \<Rightarrow> feed s' ys)"
  by (induction xs arbitrary: s) (auto split: sum.splits)

section \<open>The fields an update leaves alone\<close>

lemma apply_vote_other_fields:
  "submitted (apply_vote s mc) = submitted s
   \<and> last_recognition_time (apply_vote s mc) = last_recognition_time s
   \<and> last_recognition_result (apply_vote s mc) = last_recognition_result s
   \<and> recently_logged (apply_vote s mc) = recently_logged s"
  by (simp add: apply_vote_def Let_def)

lemma update_recognition_state_other_fields:
  "update_recognition_state s name = Inr s' \<Longrightarrow>
     submitted s' = submitted s \<and> last_recognition_time s' = last_recognition_time s
     \<and> last_recognition_result s' = last_recognition_result s
     \<and> recently_logged s' = recently_logged s"
  using update_recognition_state_vote [of s name] by (auto simp: apply_vote_other_fields)

section \<open>The attendance files\<close>

lemma length_rows_of_to_csv_append:
  "rows_of (to_csv_append csv entry) = rows_of csv @ [Row entry]"
  by (cases csv) (auto simp: to_csv_append_def rows_of_def is_row_def)

lemma write_entry_ok:
  assumes "\<not> to_csv_raises env"
  shows "log_entries (write_entry s env target_file name department) = log_entries s + 1
     \<and> (case target_file of
          StudentFile \<Rightarrow>
            rows_of (student_attendance_file (write_entry s env target_file name department))
              = rows_of (student_attendance_file s)
                  @ [Row [CStr name, CVal department, CDate (now env), CTime (now env)]]
            \<and> faculty_attendance_file (write_entry s env target_file name department)
                = faculty_attendance_file s
        | FacultyFile \<Rightarrow>
            rows_of (faculty_attendance_file (write_entry s env target_file name department))
              = rows_of (faculty_attendance_file s)
                  @ [Row [CStr name, CVal department, CDate (now env), CTime (now env)]]
            \<and> student_attendance_file (write_entry s env target_file name department)
                = student_attendance_file s)
     \<and> recently_logged (write_entry s env target_file name department) name
         = Some (now env + timedelta_seconds LOG_COOLDOWN_SECONDS)
     \<and> locked_in_person (write_entry s env target_file name department) = None
     \<and> recognition_history (write_entry s env target_file name department) = []"
  using assms
  by (cases target_file)
     (simp_all add: write_entry_def Let_def log_entries_def length_rows_of_to_csv_append)

lemma write_entry_raises: "to_csv_raises env \<Longrightarrow> write_entry s env target_file name department = s"
  by (simp add: write_entry_def)

lemma mark_attendance_cases:
  assumes "mark_attendance s env name = Inr s'"
  shows "s' = s \<or> (\<not> to_csv_raises env \<and> \<not> on_cooldown s name (now env)
           \<and> (\<exists>target_file department. s' = write_entry s env target_file name department))"
  using assms
  by (cases "to_csv_raises env")
     (auto simp: mark_attendance_def Let_def write_entry_raises
           split: if_splits details_source.splits json_doc.splits)

section \<open>Reachable states\<close>

lemma worker_iteration_inv:
  assumes "stab_inv s" and "worker_iteration s env = Inr s'"
  shows "stab_inv s'"
proof (cases "raw_frame env")
  case None
  then show ?thesis using assms by (simp add: worker_iteration_def)
next
  case (Some fr)
  from assms(2) Some obtain faces where faces: "detect_result env = Inr faces"
    by (cases "detect_result env") (auto simp: worker_iteration_def)
  define s1 where "s1 = (if database_ready s \<and> face_coords_of faces \<noteq> None
       \<and> \<not> is_recognition_running s env
       \<and> RECOGNITION_INTERVAL < current_time env - last_recognition_time s
     then s\<lparr>last_recognition_time := current_time env,
        recognition_future := Some fr, submitted := submitted s @ [fr]\<rparr> else s)"
  have i1: "stab_inv s1" using assms(1) by (simp add: s1_def stab_inv_def)
  from update_recognition_state_inv [OF i1, of "fst (last_recognition_result s1)"]
  obtain s2 where s2: "update_recognition_state s1 (fst (last_recognition_result s1)) = Inr s2"
    "stab_inv s2" by blast
  have "recognition_history s' = recognition_history s2
      \<and> stable_recognition_count s' = stable_recognition_count s2"
    using assms(2) s2(1) unfolding worker_iteration_def Some faces s1_def
    by (auto simp: Let_def split: if_splits)
  then show ?thesis using s2(2) by (simp add: stab_inv_def)
qed

lemma mark_attendance_inv:
  assumes "stab_inv s" and "mark_attendance s menv name = Inr s'"
  shows "stab_inv s'"
proof -
  from mark_attendance_cases [OF assms(2)]
  consider "s' = s"
    | target_file department where "\<not> to_csv_raises menv"
        "s' = write_entry s menv target_file name department" by blast
  then show ?thesis
  proof cases
    case 1
    then show ?thesis using assms(1) by simp
  next
    case 2
    then show ?thesis using assms(1)
      by (cases target_file) (simp_all add: write_entry_def Let_def stab_inv_def)
  qed
qed

lemma run_deepface_recognition_inv:
  "stab_inv s \<Longrightarrow> run_deepface_recognition os s outcome = Inr s' \<Longrightarrow> stab_inv s'"
  by (auto simp: run_deepface_recognition_def stab_inv_def split: sum.splits)

lemma reachable_stab_inv: "reachable s \<Longrightarrow> stab_inv s"
proof (induction rule: reachable.induct)
  case reachable_initial
  show ?case by (rule stab_inv_initial)
next
  case (reachable_update s name s')
  then show ?case using update_recognition_state_inv [of s name] by auto
next
  case (reachable_frame s env s')
  then show ?case using worker_iteration_inv by blast
next
  case (reachable_recognition s os outcome s')
  then show ?case using run_deepface_recognition_inv by blast
next
  case (reachable_mark s menv name s')
  then show ?case using mark_attendance_inv by blast
next
  case (reachable_database s b)
  then show ?case by (simp add: stab_inv_def)
next
  case (reachable_display s)
  then show ?case by (simp add: stab_inv_def)
qed

lemma feed_reachable: "reachable s \<Longrightarrow> feed s ls = Inr s' \<Longrightarrow> reachable s'"
proof (induction ls arbitrary: s)
  case Nil
  then show ?case by simp
next
  case (Cons l ls)
  from Cons.prems(2) obtain s1 where
    s1: "update_recognition_state s l = Inr s1" "feed s1 ls = Inr s'"
    by (cases "update_recognition_state s l") auto
  from reachable_update [OF Cons.prems(1) s1(1)] Cons.IH s1(2) show ?case by blast
qed

text \<open>The concrete states used below are states the application reaches.\<close>

lemmas stab_defs = update_recognition_state_def push_history_def HISTORY_MAX_LENGTH_def
  Counter_def most_common_1_def index0_def apply_vote_def sentinels_def truthy_def
  CONFIDENCE_THRESHOLD_PERCENT_def REQUIRED_STABLE_FRAMES_def Let_def

lemma locked_A_state_fed:
  "feed initial_state [''A'', ''A'', ''A'', ''A'', ''A'', ''Unknown''] = Inr locked_A_state"
  by (simp add: stab_defs initial_state_def locked_A_state_def)

lemma locked_bob_state_fed:
  "feed initial_state [''Bob Ray'', ''Bob Ray'', ''Bob Ray'', ''Bob Ray'', ''Bob Ray'']
     = Inr locked_bob_state"
  by (simp add: stab_defs initial_state_def locked_bob_state_def)

lemma reachable_locked_A_state: "reachable locked_A_state"
  using feed_reachable [OF reachable_initial locked_A_state_fed] .

lemma reachable_locked_bob_state: "reachable locked_bob_state"
  using feed_reachable [OF reachable_initial locked_bob_state_fed] .

lemma reachable_ready_state: "reachable ready_state"
  unfolding ready_state_def by (rule reachable_database [OF reachable_initial])

section \<open>The range of the stable-frame counter\<close>

text \<open>
  C10. Whatever labels are fed from the initial state, every update returns and the
  counter \<open>stable_recognition_count\<close> lies between 0 and \<open>REQUIRED_STABLE_FRAMES = 4\<close>.
  One update, from any state, adds one to the counter and then only when it was below 4,
  or leaves it as it was, or sets it to 0.
\<close>

theorem stable_recognition_count_in_range:
  "(\<exists>s'. feed initial_state ls = Inr s'
        \<and> 0 \<le> stable_recognition_count s' \<and> stable_recognition_count s' \<le> 4)
   \<and> (\<exists>s'. update_recognition_state s name = Inr s'
        \<and> (stable_recognition_count s' = stable_recognition_count s + 1
             \<and> stable_recognition_count s < 4
           \<or> stable_recognition_count s' = stable_recognition_count s
           \<or> stable_recognition_count s' = 0))"
proof
  from feed_inv [OF stab_inv_initial, of ls]
  show "\<exists>s'. feed initial_state ls = Inr s'
        \<and> 0 \<le> stable_recognition_count s' \<and> stable_recognition_count s' \<le> 4"
    by (auto simp: stab_inv_def REQUIRED_STABLE_FRAMES_def)
next
  let ?s1 = "s\<lparr>recognition_history := push_history (recognition_history s) name\<rparr>"
  obtain m where
    u: "update_recognition_state s name =
          Inr (apply_vote ?s1 (m, count_list (push_history (recognition_history s) name) m))"
    using update_recognition_state_vote [of s name] by blast
  show "\<exists>s'. update_recognition_state s name = Inr s'
        \<and> (stable_recognition_count s' = stable_recognition_count s + 1
             \<and> stable_recognition_count s < 4
           \<or> stable_recognition_count s' = stable_recognition_count s
           \<or> stable_recognition_count s' = 0)"
    using u apply_vote_count [of ?s1 "(m, count_list (push_history (recognition_history s) name) m)"]
    by (auto simp: REQUIRED_STABLE_FRAMES_def)
qed

section \<open>Eight frames with the same label\<close>

text \<open>
  C1, as stated, fails: after the 4th call with the label \<open>A\<close> from the initial state
  the counter has just reached 4 and no identity is locked.
\<close>

theorem lock_after_four_counterexample:
  "returned locked_in_person (feed initial_state (replicate 4 ''A'')) = Some None"
  by code_simp

text \<open>
  C1, amended. Feeding \<open>A\<close> eight times from the initial state, the counter is 1, 2, 3, 4
  after the first four calls with no identity locked; the 5th call, the first one that
  finds the counter at 4, locks \<open>A\<close>, and calls 6 to 8 leave \<open>A\<close> locked.
\<close>

theorem lock_on_fifth_frame:
  "map (\<lambda>k. returned (\<lambda>s. (stable_recognition_count s, locked_in_person s))
               (feed initial_state (replicate k ''A''))) [1, 2, 3, 4, 5, 6, 7, 8]
   = [Some (1, None), Some (2, None), Some (3, None), Some (4, None),
      Some (4, Some ''A''), Some (4, Some ''A''), Some (4, Some ''A''), Some (4, Some ''A'')]"
  by code_simp

section \<open>When the last labels are all one identity\<close>

text \<open>
  C3, as stated, fails: after eight \<open>Unknown\<close> labels from the initial state, eight
  labels \<open>A\<close> leave no identity locked. The first five only bring the share of \<open>A\<close> in
  the history to 5/8; the counter starts to rise with the sixth.
\<close>

theorem eight_labels_counterexample:
  "returned locked_in_person
     (feed initial_state (replicate 8 ''Unknown'' @ replicate 8 ''A'')) = Some None"
  by code_simp

text \<open>Nine are not enough either: the ninth brings the counter to 4 and the tenth locks.\<close>

lemma nine_labels_not_enough:
  "returned (\<lambda>s. (stable_recognition_count s, locked_in_person s))
     (feed initial_state (replicate 8 ''Unknown'' @ replicate 9 ''A'')) = Some (4, None)"
  by code_simp

text \<open>
  C3, amended. From any state whose history holds at most 8 labels and whose counter is
  not negative (every state the application reaches is one), after any labels at all: if
  the last 10 labels fed, or more, are all the same identity \<open>M\<close> and \<open>M\<close> is none of
  \<open>Unknown\<close>, \<open>Error\<close>, \<open>Searching...\<close>, every update returns and \<open>M\<close> is locked at the end.
\<close>

theorem locked_after_ten_equal_labels:
  assumes "M \<notin> set sentinels"
      and "length (recognition_history s) \<le> HISTORY_MAX_LENGTH"
      and "0 \<le> stable_recognition_count s"
      and "10 \<le> n"
  shows "\<exists>s'. feed s (pre @ replicate n M) = Inr s' \<and> locked_in_person s' = Some M"
proof -
  from feed_keeps [OF assms(2,3), of pre] obtain s1 where
    s1: "feed s pre = Inr s1"
        "length (recognition_history s1) \<le> HISTORY_MAX_LENGTH"
        "0 \<le> stable_recognition_count s1" by blast
  have "lock_progress M 0 s1"
    using s1(2,3) by (simp add: lock_progress_def tail_all_0)
  from lock_progress_feed [OF assms(1) this, of n] obtain s2 where
    s2: "feed s1 (replicate n M) = Inr s2" "lock_progress M (0 + n) s2" by blast
  have "locked_in_person s2 = Some M" using s2(2) assms(4) by (simp add: lock_progress_def)
  then show ?thesis using s1(1) s2(1) by (simp add: feed_append)
qed

text \<open>The theorem at the run of the counterexample, with ten labels \<open>A\<close> in place of eight.\<close>

theorem locked_after_ten_equal_labels_witness:
  "''A'' \<notin> set sentinels
   \<and> length (recognition_history initial_state) \<le> HISTORY_MAX_LENGTH
   \<and> 0 \<le> stable_recognition_count initial_state
   \<and> (10::nat) \<le> 10
   \<and> (\<exists>s'. feed initial_state (replicate 8 ''Unknown'' @ replicate 10 ''A'') = Inr s'
          \<and> locked_in_person s' = Some ''A'')"
proof -
  have a: "''A'' \<notin> set sentinels" by (simp add: sentinels_def)
  have b: "length (recognition_history initial_state) \<le> HISTORY_MAX_LENGTH"
    by (simp add: initial_state_def)
  have c: "0 \<le> stable_recognition_count initial_state" by (simp add: initial_state_def)
  have d: "(10::nat) \<le> 10" by simp
  from locked_after_ten_equal_labels [OF a b c d, of "replicate 8 ''Unknown''"]
  show ?thesis using a b c by simp
qed

section \<open>When the confidence condition fails\<close>

text \<open>
  C4. Let \<open>m\<close> and \<open>c\<close> be the most common name and its count in the history after the
  new label was appended and the oldest evicted. If \<open>m\<close> is one of \<open>Unknown\<close>, \<open>Error\<close>,
  \<open>Searching...\<close>, or \<open>c\<close> is less than 0.75 of the length of that history, the update
  returns with the counter at 0; and if an identity was locked before (the source's test
  \<open>if self.locked_in_person\<close>), then afterwards none is locked and the history is empty.
\<close>

theorem confidence_failure_resets:
  assumes "index0 (most_common_1 (Counter (push_history (recognition_history s) name))) = Inr (m, c)"
      and "m \<in> set sentinels
           \<or> (of_nat c :: rat) / of_nat (length (push_history (recognition_history s) name))
               < CONFIDENCE_THRESHOLD_PERCENT"
  shows "\<exists>s'. update_recognition_state s name = Inr s'
           \<and> stable_recognition_count s' = 0
           \<and> (truthy (locked_in_person s)
                \<longrightarrow> locked_in_person s' = None \<and> recognition_history s' = [])"
  using assms
  by (auto simp: update_recognition_state_def apply_vote_def Let_def push_history_not_Nil)

text \<open>
  The theorem when \<open>A\<close> is locked and a second \<open>Unknown\<close> brings the share of \<open>A\<close> to 5/7.
\<close>

theorem confidence_failure_resets_witness:
  "index0 (most_common_1 (Counter (push_history (recognition_history locked_A_state) ''Unknown'')))
     = Inr (''A'', 5)
   \<and> (of_nat 5 :: rat) / of_nat (length (push_history (recognition_history locked_A_state) ''Unknown''))
        < CONFIDENCE_THRESHOLD_PERCENT
   \<and> truthy (locked_in_person locked_A_state)
   \<and> (\<exists>s'. update_recognition_state locked_A_state ''Unknown'' = Inr s'
          \<and> stable_recognition_count s' = 0
          \<and> locked_in_person s' = None \<and> recognition_history s' = [])"
proof -
  have a: "index0 (most_common_1 (Counter (push_history (recognition_history locked_A_state) ''Unknown'')))
     = Inr (''A'', 5)" by code_simp
  have b: "(of_nat 5 :: rat) / of_nat (length (push_history (recognition_history locked_A_state) ''Unknown''))
        < CONFIDENCE_THRESHOLD_PERCENT" by code_simp
  have c: "truthy (locked_in_person locked_A_state)" by code_simp
  from confidence_failure_resets [OF a disjI2 [OF b]] c
  show ?thesis using a b by simp
qed

section \<open>When a recognition is submitted\<close>

lemma face_coords_of_None: "face_coords_of faces = None \<longleftrightarrow> faces = []"
  by (auto simp: face_coords_of_def split: list.splits prod.splits)

text \<open>
  C9. If a pass of the worker returns and has submitted a recognition job, then in that
  pass the database was marked ready, a frame was taken and the detector found at least
  one face in it, no recognition job was running (\<open>recognition_future\<close> is \<open>None\<close> or its
  \<open>running()\<close> answered false), and the time since the last dispatch was more than, so at
  least, \<open>RECOGNITION_INTERVAL = 0.75\<close> seconds; the frame of the pass is the job
  submitted, and the last-dispatch time is now the current time.
\<close>

theorem dispatch_conditions:
  assumes "worker_iteration s env = Inr s'" and "submitted s' \<noteq> submitted s"
  shows "database_ready s
     \<and> (\<exists>fr faces. raw_frame env = Some fr \<and> detect_result env = Inr faces \<and> faces \<noteq> []
           \<and> submitted s' = submitted s @ [fr])
     \<and> \<not> is_recognition_running s env
     \<and> RECOGNITION_INTERVAL \<le> current_time env - last_recognition_time s
     \<and> last_recognition_time s' = current_time env"
proof -
  from assms obtain fr where fr: "raw_frame env = Some fr"
    by (cases "raw_frame env") (auto simp: worker_iteration_def)
  from assms(1) fr obtain faces where faces: "detect_result env = Inr faces"
    by (cases "detect_result env") (auto simp: worker_iteration_def)
  define cond where "cond = (database_ready s \<and> face_coords_of faces \<noteq> None
       \<and> \<not> is_recognition_running s env
       \<and> RECOGNITION_INTERVAL < current_time env - last_recognition_time s)"
  define s1 where "s1 = (if cond then s\<lparr>last_recognition_time := current_time env,
        recognition_future := Some fr, submitted := submitted s @ [fr]\<rparr> else s)"
  from assms(1) obtain s2 where
    s2: "update_recognition_state s1 (fst (last_recognition_result s1)) = Inr s2"
    and s': "submitted s' = submitted s2 \<and> last_recognition_time s' = last_recognition_time s2"
    unfolding worker_iteration_def fr faces s1_def cond_def
    by (auto simp: Let_def split: sum.splits if_splits)
  from update_recognition_state_other_fields [OF s2] s'
  have eq: "submitted s' = submitted s1" "last_recognition_time s' = last_recognition_time s1"
    by simp_all
  have g: cond using eq(1) assms(2) by (cases cond) (auto simp: s1_def)
  then show ?thesis using eq fr faces
    by (auto simp: s1_def cond_def face_coords_of_None)
qed

text \<open>The theorem at the first pass with a face after the database became ready.\<close>

lemma ready_dispatch: "worker_iteration ready_state face_env = Inr after_dispatch_state"
  by (simp add: worker_iteration_def face_env_def ready_state_def initial_state_def
      face_coords_of_def unscale_def py_int_def FRAME_PROCESS_SCALE_FACTOR_def
      is_recognition_running_def RECOGNITION_INTERVAL_def Let_def
      update_recognition_state_def push_history_def HISTORY_MAX_LENGTH_def
      Counter_def most_common_1_def index0_def apply_vote_def sentinels_def truthy_def
      draw_on_frame_def QUEUE_MAXSIZE_def after_dispatch_state_def)

theorem dispatch_conditions_witness:
  "worker_iteration ready_state face_env = Inr after_dispatch_state
   \<and> submitted after_dispatch_state \<noteq> submitted ready_state
   \<and> database_ready ready_state
   \<and> (\<exists>fr faces. raw_frame face_env = Some fr \<and> detect_result face_env = Inr faces
         \<and> faces \<noteq> [] \<and> submitted after_dispatch_state = submitted ready_state @ [fr])
   \<and> \<not> is_recognition_running ready_state face_env
   \<and> RECOGNITION_INTERVAL \<le> current_time face_env - last_recognition_time ready_state
   \<and> last_recognition_time after_dispatch_state = current_time face_env"
proof -
  have a: "worker_iteration ready_state face_env = Inr after_dispatch_state"
    by (rule ready_dispatch)
  have b: "submitted after_dispatch_state \<noteq> submitted ready_state"
    by (simp add: after_dispatch_state_def ready_state_def initial_state_def)
  from dispatch_conditions [OF a b] show ?thesis using a b by simp
qed

section \<open>An exception of the detector\<close>

text \<open>
  C2, as stated, fails: \<open>detectMultiScale\<close> is called outside any \<open>try\<close>. When it raises
  in the first of two passes, the loop is left with that exception and the second frame
  is never processed.
\<close>

theorem detector_exception_counterexample:
  "frame_processing_worker ready_state [detector_fails_env, face_env]
     = Inl (Raised ''cv2.error'', ready_state)"
  by (simp add: worker_iteration_def detector_fails_env_def)

text \<open>
  C2, amended. If the detector raises while a frame is processed, the exception leaves
  the pass and the loop of the worker, whatever frames would follow; every field is as it
  was before that frame: no job is submitted, the history gets no label, no frame is
  put on the output queue, and \<open>last_recognition_result\<close> is untouched.
\<close>

theorem detector_exception_ends_worker:
  assumes "raw_frame env = Some fr" and "detect_result env = Inl e"
  shows "worker_iteration s env = Inl (e, s)
     \<and> frame_processing_worker s (env # envs) = Inl (e, s)"
  using assms by (simp add: worker_iteration_def)

text \<open>The theorem when the detector raises after a job was submitted.\<close>

theorem detector_exception_ends_worker_witness:
  "raw_frame detector_fails_env = Some 6
   \<and> detect_result detector_fails_env = Inl (Raised ''cv2.error'')
   \<and> worker_iteration after_dispatch_state detector_fails_env
       = Inl (Raised ''cv2.error'', after_dispatch_state)
   \<and> frame_processing_worker after_dispatch_state [detector_fails_env, face_env, face_env]
       = Inl (Raised ''cv2.error'', after_dispatch_state)"
proof -
  have a: "raw_frame detector_fails_env = Some 6" by (simp add: detector_fails_env_def)
  have b: "detect_result detector_fails_env = Inl (Raised ''cv2.error'')"
    by (simp add: detector_fails_env_def)
  from detector_exception_ends_worker [OF a b, of after_dispatch_state "[face_env, face_env]"]
  show ?thesis using a b by simp
qed

section \<open>The recognition result\<close>

text \<open>
  C8. Whatever \<open>DeepFace.find\<close> does, the recognition job returns, having stored a
  result and changed no other field. A best match at a distance below 0.40 stores the
  name of the identity's folder, underscores replaced by spaces, with the distance; a
  best match at a distance of 0.40 or more stores \<open>Unknown\<close> with the distance; no data
  frame, an empty first data frame and a value that is not a list store \<open>Unknown\<close> with
  \<open>+inf\<close>; and so does an exception, raised by \<open>DeepFace.find\<close> or while the best match
  is read.
\<close>

theorem recognition_result_normalized:
  "(\<exists>l d. run_deepface_recognition os s outcome = Inr (s\<lparr>last_recognition_result := (l, d)\<rparr>))
   \<and> (float_lt d1 DEEPFACE_DISTANCE_THRESHOLD \<longrightarrow>
        run_deepface_recognition os s (Inr (DataFrames ((Match p d1 # rows) # dfs)))
          = Inr (s\<lparr>last_recognition_result :=
                     (replace_char (CHR ''_'') (CHR '' '') (basename os (dirname os p)), d1)\<rparr>))
   \<and> (float_ge d2 DEEPFACE_DISTANCE_THRESHOLD \<longrightarrow>
        run_deepface_recognition os s (Inr (DataFrames ((Match p d2 # rows) # dfs)))
          = Inr (s\<lparr>last_recognition_result := (''Unknown'', d2)\<rparr>))
   \<and> run_deepface_recognition os s (Inr (DataFrames []))
        = Inr (s\<lparr>last_recognition_result := (''Unknown'', PosInf)\<rparr>)
   \<and> run_deepface_recognition os s (Inr (DataFrames ([] # dfs)))
        = Inr (s\<lparr>last_recognition_result := (''Unknown'', PosInf)\<rparr>)
   \<and> run_deepface_recognition os s (Inr NotAList)
        = Inr (s\<lparr>last_recognition_result := (''Unknown'', PosInf)\<rparr>)
   \<and> run_deepface_recognition os s (Inl e)
        = Inr (s\<lparr>last_recognition_result := (''Unknown'', PosInf)\<rparr>)
   \<and> run_deepface_recognition os s (Inr (DataFrames ((Malformed e # rows) # dfs)))
        = Inr (s\<lparr>last_recognition_result := (''Unknown'', PosInf)\<rparr>)"
proof -
  have tot: "\<exists>l d. run_deepface_recognition os s outcome = Inr (s\<lparr>last_recognition_result := (l, d)\<rparr>)"
    by (cases "recognition_try os outcome") (auto simp: run_deepface_recognition_def)
  have ge: "\<not> float_lt d2 DEEPFACE_DISTANCE_THRESHOLD" if "float_ge d2 DEEPFACE_DISTANCE_THRESHOLD"
    using that by (cases d2) (auto simp: float_ge_def DEEPFACE_DISTANCE_THRESHOLD_def)
  show ?thesis using tot ge
    by (simp add: run_deepface_recognition_def recognition_try_def)
qed

text \<open>The theorem at a match at distance 0.25 and at one at distance 0.5.\<close>

theorem recognition_result_normalized_witness:
  "float_lt (Finite (1 / 4)) DEEPFACE_DISTANCE_THRESHOLD
   \<and> run_deepface_recognition posixpath initial_state
        (Inr (DataFrames [[Match ''face_database/Ann_Lee/img_3.jpg'' (Finite (1 / 4))]]))
      = Inr (initial_state\<lparr>last_recognition_result := (''Ann Lee'', Finite (1 / 4))\<rparr>)
   \<and> float_ge (Finite (1 / 2)) DEEPFACE_DISTANCE_THRESHOLD
   \<and> run_deepface_recognition posixpath initial_state
        (Inr (DataFrames [[Match ''face_database/Ann_Lee/img_3.jpg'' (Finite (1 / 2))]]))
      = Inr (initial_state\<lparr>last_recognition_result := (''Unknown'', Finite (1 / 2))\<rparr>)"
proof -
  have a: "float_lt (Finite (1 / 4)) DEEPFACE_DISTANCE_THRESHOLD"
    by (simp add: DEEPFACE_DISTANCE_THRESHOLD_def)
  have b: "float_ge (Finite (1 / 2)) DEEPFACE_DISTANCE_THRESHOLD"
    by (simp add: DEEPFACE_DISTANCE_THRESHOLD_def float_ge_def)
  have n: "replace_char (CHR ''_'') (CHR '' '')
             (basename posixpath (dirname posixpath ''face_database/Ann_Lee/img_3.jpg'')) = ''Ann Lee''"
    by code_simp
  from recognition_result_normalized [of posixpath initial_state "Inl IndexError" "Finite (1 / 4)"
      "''face_database/Ann_Lee/img_3.jpg''" "[]" "[]" "Finite (1 / 2)" IndexError]
  show ?thesis using a b n by simp
qed

section \<open>Committing attendance\<close>

text \<open>
  C6, amended. Let the cooldown table hold no entry for the identity that is still in the
  future, let \<open>details.json\<close> of the identity load as a dict whose \<open>user_type\<close> is
  \<open>Student\<close> or \<open>Faculty\<close>, and let the CSV append not raise. Then \<open>mark_attendance\<close>
  returns; the two
  attendance files together hold one entry more, the entry with the name, the department,
  the date and the time of now, appended to the students' file for a student and to the
  faculty's file otherwise, the other file being left as it was; the cooldown table maps
  the identity to now plus 300 seconds; no identity is locked and the history is empty.
\<close>

theorem mark_attendance_commits:
  assumes "\<not> on_cooldown s name (now env)"
      and "details_at env (replace_char (CHR '' '') (CHR ''_'') name) = Loaded (JDict details)"
      and "dict_get details ''user_type'' (JStr ''Unknown'') = JStr ''Student''
           \<or> dict_get details ''user_type'' (JStr ''Unknown'') = JStr ''Faculty''"
      and "\<not> to_csv_raises env"
  shows "\<exists>s'. mark_attendance s env name = Inr s'
     \<and> log_entries s' = log_entries s + 1
     \<and> (if dict_get details ''user_type'' (JStr ''Unknown'') = JStr ''Student''
        then rows_of (student_attendance_file s')
               = rows_of (student_attendance_file s)
                   @ [Row [CStr name, CVal (dict_get details ''department'' (JStr ''N/A'')),
                           CDate (now env), CTime (now env)]]
             \<and> faculty_attendance_file s' = faculty_attendance_file s
        else rows_of (faculty_attendance_file s')
               = rows_of (faculty_attendance_file s)
                   @ [Row [CStr name, CVal (dict_get details ''department'' (JStr ''N/A'')),
                           CDate (now env), CTime (now env)]]
             \<and> student_attendance_file s' = student_attendance_file s)
     \<and> recently_logged s' name = Some (now env + 300 * 1000000)
     \<and> locked_in_person s' = None
     \<and> recognition_history s' = []"
proof (cases "dict_get details ''user_type'' (JStr ''Unknown'') = JStr ''Student''")
  case True
  have m: "mark_attendance s env name
      = Inr (write_entry s env StudentFile name (dict_get details ''department'' (JStr ''N/A'')))"
    using assms(1,2) True by (simp add: mark_attendance_def Let_def)
  from write_entry_ok [OF assms(4), of s StudentFile name "dict_get details ''department'' (JStr ''N/A'')"]
  show ?thesis using m True
    by (simp add: timedelta_seconds_def LOG_COOLDOWN_SECONDS_def)
next
  case False
  then have F: "dict_get details ''user_type'' (JStr ''Unknown'') = JStr ''Faculty''"
    using assms(3) by simp
  have m: "mark_attendance s env name
      = Inr (write_entry s env FacultyFile name (dict_get details ''department'' (JStr ''N/A'')))"
    using assms(1,2) F by (simp add: mark_attendance_def Let_def)
  from write_entry_ok [OF assms(4), of s FacultyFile name "dict_get details ''department'' (JStr ''N/A'')"]
  show ?thesis using m F
    by (simp add: timedelta_seconds_def LOG_COOLDOWN_SECONDS_def)
qed

lemma bob_folder: "replace_char (CHR '' '') (CHR ''_'') ''Bob Ray'' = ''Bob_Ray''"
  by (simp add: replace_char_def)

lemma bob_loaded:
  "bob_details ''Bob_Ray'' = Loaded (JDict [(''name'', JStr ''Bob Ray''),
      (''user_type'', JStr ''Student''), (''department'', JStr ''BSCS'')])"
  by (simp add: bob_details_def)

lemma bob_user_type:
  "dict_get [(''name'', JStr ''Bob Ray''), (''user_type'', JStr ''Student''),
      (''department'', JStr ''BSCS'')] ''user_type'' (JStr ''Unknown'') = JStr ''Student''"
  by (simp add: dict_get_def)

lemma bob_department:
  "dict_get [(''name'', JStr ''Bob Ray''), (''user_type'', JStr ''Student''),
      (''department'', JStr ''BSCS'')] ''department'' (JStr ''N/A'') = JStr ''BSCS''"
  by (simp add: dict_get_def)

lemma bob_first_mark: "mark_attendance locked_bob_state bob_env ''Bob Ray'' = Inr bob_logged_state"
  by (simp add: mark_attendance_def on_cooldown_def locked_bob_state_def initial_state_def
      bob_env_def bob_folder bob_loaded bob_user_type bob_department Let_def write_entry_def
      to_csv_append_def bob_logged_state_def timedelta_seconds_def LOG_COOLDOWN_SECONDS_def)

text \<open>
  C6, as stated, fails: the two conditions on the cooldown table and on the record do not
  make the append succeed. Bob Ray is locked, has no entry in the cooldown table and has
  a student's record; when the CSV append raises, the call returns the state it was
  given: no entry is written, the cooldown table has no entry for him, and he stays
  locked with his history.
\<close>

theorem commit_with_failing_append_counterexample:
  "\<not> on_cooldown locked_bob_state ''Bob Ray'' (now bob_env_disk_full)
   \<and> details_at bob_env_disk_full (replace_char (CHR '' '') (CHR ''_'') ''Bob Ray'')
       = Loaded (JDict [(''name'', JStr ''Bob Ray''), (''user_type'', JStr ''Student''),
                        (''department'', JStr ''BSCS'')])
   \<and> mark_attendance locked_bob_state bob_env_disk_full ''Bob Ray'' = Inr locked_bob_state
   \<and> log_entries locked_bob_state = 0
   \<and> recently_logged locked_bob_state ''Bob Ray'' = None
   \<and> locked_in_person locked_bob_state = Some ''Bob Ray''
   \<and> recognition_history locked_bob_state
       = [''Bob Ray'', ''Bob Ray'', ''Bob Ray'', ''Bob Ray'', ''Bob Ray'']"
  by (simp add: mark_attendance_def on_cooldown_def locked_bob_state_def initial_state_def
      bob_env_disk_full_def bob_folder bob_loaded bob_user_type bob_department Let_def
      write_entry_def log_entries_def rows_of_def)

text \<open>The theorem at the first commit of Bob Ray, locked after five frames.\<close>

theorem mark_attendance_commits_witness:
  "\<not> on_cooldown locked_bob_state ''Bob Ray'' (now bob_env)
   \<and> details_at bob_env (replace_char (CHR '' '') (CHR ''_'') ''Bob Ray'')
       = Loaded (JDict [(''name'', JStr ''Bob Ray''), (''user_type'', JStr ''Student''),
                        (''department'', JStr ''BSCS'')])
   \<and> \<not> to_csv_raises bob_env
   \<and> (\<exists>s'. mark_attendance locked_bob_state bob_env ''Bob Ray'' = Inr s'
        \<and> log_entries s' = log_entries locked_bob_state + 1
        \<and> rows_of (student_attendance_file s')
            = rows_of (student_attendance_file locked_bob_state)
                @ [Row [CStr ''Bob Ray'', CVal (JStr ''BSCS''), CDate 1000000000, CTime 1000000000]]
        \<and> faculty_attendance_file s' = faculty_attendance_file locked_bob_state
        \<and> recently_logged s' ''Bob Ray'' = Some 1300000000
        \<and> locked_in_person s' = None
        \<and> recognition_history s' = [])"
proof -
  have a: "\<not> on_cooldown locked_bob_state ''Bob Ray'' (now bob_env)"
    by (simp add: on_cooldown_def locked_bob_state_def initial_state_def)
  have b: "details_at bob_env (replace_char (CHR '' '') (CHR ''_'') ''Bob Ray'')
       = Loaded (JDict [(''name'', JStr ''Bob Ray''), (''user_type'', JStr ''Student''),
                        (''department'', JStr ''BSCS'')])"
    by (simp add: bob_env_def bob_folder bob_loaded)
  have c: "\<not> to_csv_raises bob_env" by (simp add: bob_env_def)
  from mark_attendance_commits [OF a b disjI1 [OF bob_user_type] c]
  show ?thesis using a b c by (simp add: bob_user_type bob_department bob_env_def)
qed

text \<open>
  C7. If \<open>mark_attendance\<close> reaches the CSV append (no cooldown in force, a record with
  \<open>user_type\<close> \<open>Student\<close> or \<open>Faculty\<close>) and the append raises, the call returns with the
  identity's entry in the cooldown table, the locked identity and the history as they
  were; whether the identity is on cooldown at any time \<open>t\<close> is as before, so a retry sees
  what the failed call saw.
\<close>

theorem failed_write_changes_nothing:
  assumes "\<not> on_cooldown s name (now env)"
      and "details_at env (replace_char (CHR '' '') (CHR ''_'') name) = Loaded (JDict details)"
      and "dict_get details ''user_type'' (JStr ''Unknown'') = JStr ''Student''
           \<or> dict_get details ''user_type'' (JStr ''Unknown'') = JStr ''Faculty''"
      and "to_csv_raises env"
  shows "\<exists>s'. mark_attendance s env name = Inr s'
     \<and> recently_logged s' name = recently_logged s name
     \<and> locked_in_person s' = locked_in_person s
     \<and> recognition_history s' = recognition_history s
     \<and> on_cooldown s' name t = on_cooldown s name t"
  using assms by (auto simp: mark_attendance_def Let_def write_entry_raises)

text \<open>The theorem at a commit of Bob Ray whose append raises.\<close>

theorem failed_write_changes_nothing_witness:
  "\<not> on_cooldown locked_bob_state ''Bob Ray'' (now bob_env_disk_full)
   \<and> details_at bob_env_disk_full (replace_char (CHR '' '') (CHR ''_'') ''Bob Ray'')
       = Loaded (JDict [(''name'', JStr ''Bob Ray''), (''user_type'', JStr ''Student''),
                        (''department'', JStr ''BSCS'')])
   \<and> to_csv_raises bob_env_disk_full
   \<and> (\<exists>s'. mark_attendance locked_bob_state bob_env_disk_full ''Bob Ray'' = Inr s'
        \<and> recently_logged s' ''Bob Ray'' = None
        \<and> locked_in_person s' = Some ''Bob Ray''
        \<and> recognition_history s' = [''Bob Ray'', ''Bob Ray'', ''Bob Ray'', ''Bob Ray'', ''Bob Ray'']
        \<and> \<not> on_cooldown s' ''Bob Ray'' 1000000001)"
proof -
  have a: "\<not> on_cooldown locked_bob_state ''Bob Ray'' (now bob_env_disk_full)"
    by (simp add: on_cooldown_def locked_bob_state_def initial_state_def)
  have b: "details_at bob_env_disk_full (replace_char (CHR '' '') (CHR ''_'') ''Bob Ray'')
       = Loaded (JDict [(''name'', JStr ''Bob Ray''), (''user_type'', JStr ''Student''),
                        (''department'', JStr ''BSCS'')])"
    by (simp add: bob_env_disk_full_def bob_folder bob_loaded)
  have c: "to_csv_raises bob_env_disk_full" by (simp add: bob_env_disk_full_def)
  from failed_write_changes_nothing [OF a b disjI1 [OF bob_user_type] c, of 1000000001]
  show ?thesis using a b c
    by (auto simp: locked_bob_state_def initial_state_def on_cooldown_def)
qed

text \<open>
  C5. If a call of \<open>mark_attendance\<close> for an identity returns having added one entry to
  the attendance files, and it is called again for that identity at a time before the
  first call's time plus 300 seconds, the second call returns the state it was given:
  no entry is written, no field changes, nothing is raised, and the files hold exactly
  one entry more than before the first call.
\<close>

theorem second_mark_in_cooldown_is_noop:
  assumes "mark_attendance s env1 name = Inr s1"
      and "log_entries s1 = log_entries s + 1"
      and "now env2 < now env1 + 300 * 1000000"
  shows "mark_attendance s1 env2 name = Inr s1
     \<and> returned log_entries (mark_attendance s1 env2 name) = Some (log_entries s + 1)"
proof -
  from mark_attendance_cases [OF assms(1)] assms(2)
  obtain target_file department where
    w: "\<not> to_csv_raises env1" "s1 = write_entry s env1 target_file name department"
    by auto
  from write_entry_ok [OF w(1), of s target_file name department] w(2)
  have "recently_logged s1 name = Some (now env1 + timedelta_seconds LOG_COOLDOWN_SECONDS)"
    by simp
  then have "on_cooldown s1 name (now env2)"
    using assms(3) by (simp add: on_cooldown_def timedelta_seconds_def LOG_COOLDOWN_SECONDS_def)
  then have "mark_attendance s1 env2 name = Inr s1" by (simp add: mark_attendance_def)
  then show ?thesis using assms(2) by (simp add: returned_def)
qed

text \<open>The theorem at two commits of Bob Ray, the second a microsecond before the expiry.\<close>

theorem second_mark_in_cooldown_is_noop_witness:
  "mark_attendance locked_bob_state bob_env ''Bob Ray'' = Inr bob_logged_state
   \<and> log_entries bob_logged_state = log_entries locked_bob_state + 1
   \<and> now bob_env_soon < now bob_env + 300 * 1000000
   \<and> mark_attendance bob_logged_state bob_env_soon ''Bob Ray'' = Inr bob_logged_state
   \<and> returned log_entries (mark_attendance bob_logged_state bob_env_soon ''Bob Ray'') = Some 1"
proof -
  have a: "mark_attendance locked_bob_state bob_env ''Bob Ray'' = Inr bob_logged_state"
    by (rule bob_first_mark)
  have b: "log_entries bob_logged_state = log_entries locked_bob_state + 1"
    by (simp add: log_entries_def bob_logged_state_def locked_bob_state_def initial_state_def
        rows_of_def is_row_def)
  have c: "now bob_env_soon < now bob_env + 300 * 1000000"
    by (simp add: bob_env_soon_def bob_env_def)
  have d: "log_entries locked_bob_state = 0"
    by (simp add: log_entries_def locked_bob_state_def initial_state_def rows_of_def)
  from second_mark_in_cooldown_is_noop [OF a b c]
  show ?thesis using a b c d by (simp add: returned_def)
qed

end
